theory Spec2Isabelle
  imports Main
begin

section \<open>The contract language: values, transactions, evaluation\<close>

text \<open>
  Both contracts are PyTeal expression trees. Each PyTeal constructor the sources use is
  given here as a HOL function of the same name, so that the two programs below are
  written term by term as in \<^verbatim>\<open>counter_contract.py\<close> and
  \<^verbatim>\<open>donation_smart_sig.py\<close>.

  A value of the virtual machine is an unsigned 64-bit integer or a byte string. The
  integers are kept as \<open>int\<close> with the range checks of the machine written out: the
  machine does not wrap around, it fails on an overflowing \<open>+\<close> and on a \<open>-\<close>
  below zero.
\<close>

datatype teal_value = uint64 int | bytes string

datatype teal_error =
    Err               \<comment> \<open>the \<open>err\<close> opcode: a \<open>Cond\<close> none of whose conditions holds\<close>
  | Overflow          \<comment> \<open>\<open>+\<close> beyond \<open>2^64 - 1\<close>\<close>
  | Underflow         \<comment> \<open>\<open>-\<close> below \<open>0\<close>\<close>
  | TypeMismatch      \<comment> \<open>an integer operation on a byte string, or the converse\<close>
  | ArgIndex          \<comment> \<open>\<open>Txn.application_args[i]\<close> with no such argument\<close>

text \<open>The on-completion actions and transaction types, with the codes of the protocol.\<close>

datatype on_complete = NoOp | OptIn | CloseOut | ClearState | UpdateApplication | DeleteApplication

fun on_complete_code :: "on_complete \<Rightarrow> int" where
  "on_complete_code NoOp = 0"
| "on_complete_code OptIn = 1"
| "on_complete_code CloseOut = 2"
| "on_complete_code ClearState = 3"
| "on_complete_code UpdateApplication = 4"
| "on_complete_code DeleteApplication = 5"

datatype txn_type =
  Unknown | Payment | KeyRegistration | AssetConfig | AssetTransfer | AssetFreeze | ApplicationCall

fun txn_type_code :: "txn_type \<Rightarrow> int" where
  "txn_type_code Unknown = 0"
| "txn_type_code Payment = 1"
| "txn_type_code KeyRegistration = 2"
| "txn_type_code AssetConfig = 3"
| "txn_type_code AssetTransfer = 4"
| "txn_type_code AssetFreeze = 5"
| "txn_type_code ApplicationCall = 6"

text \<open>
  What a program can read of the transaction under evaluation and of its group. An
  address is kept in its textual form; \<open>Addr\<close> and \<open>Txn.receiver()\<close> are both the
  public key that the text stands for, and two addresses are equal exactly when their
  keys are.
\<close>

record txn =
  type_enum :: txn_type
  receiver :: string
  application_id :: int
  on_completion :: on_complete
  application_args :: "string list"
  group_size :: int

text \<open>The mutable part: the application's global key/value state and the scratch slot
  of \<open>scratchCount\<close> (a slot never written reads as \<open>0\<close>).\<close>

type_synonym global_state = "string \<rightharpoonup> teal_value"

record machine =
  globals :: global_state
  scratch :: teal_value

text \<open>
  Evaluating an expression fails, leaves the program through \<open>Return\<close> with a value,
  or goes on with a result and the machine as it is then.
\<close>

datatype 'a step = Fail teal_error | Exit int machine | Next 'a machine

type_synonym expr = "txn \<Rightarrow> machine \<Rightarrow> teal_value step"
type_synonym stmt = "txn \<Rightarrow> machine \<Rightarrow> unit step"

definition bind_step :: "'a step \<Rightarrow> ('a \<Rightarrow> machine \<Rightarrow> 'b step) \<Rightarrow> 'b step" where
  "bind_step r f = (case r of Fail e \<Rightarrow> Fail e | Exit v m \<Rightarrow> Exit v m | Next a m \<Rightarrow> f a m)"

definition uint64_max :: int where
  "uint64_max = 2 ^ 64 - 1"

definition Int_teal :: "int \<Rightarrow> expr" where
  "Int_teal n = (\<lambda>t m. Next (uint64 n) m)"

definition Bytes :: "string \<Rightarrow> expr" where
  "Bytes s = (\<lambda>t m. Next (bytes s) m)"

definition Addr :: "string \<Rightarrow> expr" where
  "Addr a = (\<lambda>t m. Next (bytes a) m)"

text \<open>Both operands are evaluated, left to right, before the operator is applied.\<close>

definition binop :: "(teal_value \<Rightarrow> teal_value \<Rightarrow> teal_error + teal_value) \<Rightarrow> expr \<Rightarrow> expr \<Rightarrow> expr" where
  "binop f a b = (\<lambda>t m.
     bind_step (a t m) (\<lambda>x m1.
     bind_step (b t m1) (\<lambda>y m2.
       case f x y of Inl e \<Rightarrow> Fail e | Inr v \<Rightarrow> Next v m2)))"

fun plus_value :: "teal_value \<Rightarrow> teal_value \<Rightarrow> teal_error + teal_value" where
  "plus_value (uint64 i) (uint64 j) = (if i + j > uint64_max then Inl Overflow else Inr (uint64 (i + j)))"
| "plus_value _ _ = Inl TypeMismatch"

fun minus_value :: "teal_value \<Rightarrow> teal_value \<Rightarrow> teal_error + teal_value" where
  "minus_value (uint64 i) (uint64 j) = (if i < j then Inl Underflow else Inr (uint64 (i - j)))"
| "minus_value _ _ = Inl TypeMismatch"

fun gt_value :: "teal_value \<Rightarrow> teal_value \<Rightarrow> teal_error + teal_value" where
  "gt_value (uint64 i) (uint64 j) = Inr (uint64 (if i > j then 1 else 0))"
| "gt_value _ _ = Inl TypeMismatch"

fun eq_value :: "teal_value \<Rightarrow> teal_value \<Rightarrow> teal_error + teal_value" where
  "eq_value (uint64 i) (uint64 j) = Inr (uint64 (if i = j then 1 else 0))"
| "eq_value (bytes s) (bytes r) = Inr (uint64 (if s = r then 1 else 0))"
| "eq_value _ _ = Inl TypeMismatch"

fun and_value :: "teal_value \<Rightarrow> teal_value \<Rightarrow> teal_error + teal_value" where
  "and_value (uint64 i) (uint64 j) = Inr (uint64 (if i \<noteq> 0 \<and> j \<noteq> 0 then 1 else 0))"
| "and_value _ _ = Inl TypeMismatch"

text \<open>The source writes \<open>+\<close>, \<open>-\<close>, \<open>>\<close> and \<open>==\<close> on expressions.\<close>

definition Plus :: "expr \<Rightarrow> expr \<Rightarrow> expr" where
  "Plus = binop plus_value"

definition Minus :: "expr \<Rightarrow> expr \<Rightarrow> expr" where
  "Minus = binop minus_value"

definition Gt :: "expr \<Rightarrow> expr \<Rightarrow> expr" where
  "Gt = binop gt_value"

definition Eq :: "expr \<Rightarrow> expr \<Rightarrow> expr" where
  "Eq = binop eq_value"

text \<open>
  \<open>And\<close> of several arguments is the binary \<open>&&\<close> folded from the left; no argument
  is skipped when an earlier one is already \<open>0\<close>. PyTeal refuses to build an \<open>And\<close>
  of no argument; here it is the program that fails.
\<close>

fun And_from :: "expr \<Rightarrow> expr list \<Rightarrow> expr" where
  "And_from a [] = a"
| "And_from a (b # bs) = And_from (binop and_value a b) bs"

fun And :: "expr list \<Rightarrow> expr" where
  "And [] = (\<lambda>t m. Fail TypeMismatch)"
| "And (a # as) = And_from a as"

definition Txn_type_enum :: expr where
  "Txn_type_enum = (\<lambda>t m. Next (uint64 (txn_type_code (type_enum t))) m)"

definition Txn_receiver :: expr where
  "Txn_receiver = (\<lambda>t m. Next (bytes (receiver t)) m)"

definition Txn_application_id :: expr where
  "Txn_application_id = (\<lambda>t m. Next (uint64 (application_id t)) m)"

definition Txn_on_completion :: expr where
  "Txn_on_completion = (\<lambda>t m. Next (uint64 (on_complete_code (on_completion t))) m)"

definition Txn_application_args :: "nat \<Rightarrow> expr" where
  "Txn_application_args i = (\<lambda>t m.
     if i < length (application_args t) then Next (bytes (application_args t ! i)) m
     else Fail ArgIndex)"

definition Global_group_size :: expr where
  "Global_group_size = (\<lambda>t m. Next (uint64 (group_size t)) m)"

definition OnComplete :: "on_complete \<Rightarrow> expr" where
  "OnComplete oc = Int_teal (on_complete_code oc)"

definition TxnType :: "txn_type \<Rightarrow> expr" where
  "TxnType ty = Int_teal (txn_type_code ty)"

text \<open>\<open>App.globalGet\<close> of a key that is not in the state is the integer \<open>0\<close>.\<close>

definition App_globalGet :: "expr \<Rightarrow> expr" where
  "App_globalGet k = (\<lambda>t m.
     bind_step (k t m) (\<lambda>kv m1.
       case kv of
         bytes key \<Rightarrow> Next (case globals m1 key of None \<Rightarrow> uint64 0 | Some v \<Rightarrow> v) m1
       | uint64 _ \<Rightarrow> Fail TypeMismatch))"

definition App_globalPut :: "expr \<Rightarrow> expr \<Rightarrow> stmt" where
  "App_globalPut k v = (\<lambda>t m.
     bind_step (k t m) (\<lambda>kv m1.
     bind_step (v t m1) (\<lambda>x m2.
       case kv of
         bytes key \<Rightarrow> Next () (m2\<lparr>globals := (globals m2)(key \<mapsto> x)\<rparr>)
       | uint64 _ \<Rightarrow> Fail TypeMismatch)))"

text \<open>\<open>scratchCount = ScratchVar(TealType.uint64)\<close>: one slot, stored to and loaded from.\<close>

definition scratchCount_store :: "expr \<Rightarrow> stmt" where
  "scratchCount_store v = (\<lambda>t m. bind_step (v t m) (\<lambda>x m1. Next () (m1\<lparr>scratch := x\<rparr>)))"

definition scratchCount_load :: expr where
  "scratchCount_load = (\<lambda>t m. Next (scratch m) m)"

definition Return :: "expr \<Rightarrow> stmt" where
  "Return v = (\<lambda>t m.
     bind_step (v t m) (\<lambda>x m1.
       case x of uint64 n \<Rightarrow> Exit n m1 | bytes _ \<Rightarrow> Fail TypeMismatch))"

fun Seq :: "stmt list \<Rightarrow> stmt" where
  "Seq [] = (\<lambda>t m. Next () m)"
| "Seq (s # ss) = (\<lambda>t m. bind_step (s t m) (\<lambda>_ m1. Seq ss t m1))"

text \<open>\<open>If\<close> with no else branch.\<close>

definition If_teal :: "expr \<Rightarrow> stmt \<Rightarrow> stmt" where
  "If_teal c s = (\<lambda>t m.
     bind_step (c t m) (\<lambda>x m1.
       case x of
         uint64 n \<Rightarrow> if n \<noteq> 0 then s t m1 else Next () m1
       | bytes _ \<Rightarrow> Fail TypeMismatch))"

text \<open>
  \<open>Cond\<close> tries its conditions in order and runs the body of the first that holds; a
  later condition is not evaluated. With no condition left the program fails.
\<close>

fun Cond :: "(expr \<times> stmt) list \<Rightarrow> stmt" where
  "Cond [] = (\<lambda>t m. Fail Err)"
| "Cond ((c, s) # cs) = (\<lambda>t m.
     bind_step (c t m) (\<lambda>x m1.
       case x of
         uint64 n \<Rightarrow> if n \<noteq> 0 then s t m1 else Cond cs t m1
       | bytes _ \<Rightarrow> Fail TypeMismatch))"

section \<open>The counter contract\<close>

definition on_creation :: stmt where
  "on_creation = Seq [
     App_globalPut (Bytes ''Count'') (Int_teal 0),
     Return (Int_teal 1)
   ]"

definition add :: stmt where
  "add = Seq [
     scratchCount_store (App_globalGet (Bytes ''Count'')),
     App_globalPut (Bytes ''Count'') (Plus scratchCount_load (Int_teal 1)),
     Return (Int_teal 1)
   ]"

definition deduct :: stmt where
  "deduct = Seq [
     scratchCount_store (App_globalGet (Bytes ''Count'')),
     If_teal (Gt scratchCount_load (Int_teal 0))
       (App_globalPut (Bytes ''Count'') (Minus scratchCount_load (Int_teal 1))),
     Return (Int_teal 1)
   ]"

definition handle_noop :: stmt where
  "handle_noop = Cond [
     (And [
        Eq Global_group_size (Int_teal 1),
        Eq (Txn_application_args 0) (Bytes ''Add'')
      ], add),
     (And [
        Eq Global_group_size (Int_teal 1),
        Eq (Txn_application_args 0) (Bytes ''Deduct'')
      ], deduct)
   ]"

definition approval_program :: stmt where
  "approval_program = Cond [
     (Eq Txn_application_id (Int_teal 0), on_creation),
     (Eq Txn_on_completion (OnComplete OptIn), Return (Int_teal 0)),
     (Eq Txn_on_completion (OnComplete CloseOut), Return (Int_teal 0)),
     (Eq Txn_on_completion (OnComplete UpdateApplication), Return (Int_teal 0)),
     (Eq Txn_on_completion (OnComplete DeleteApplication), Return (Int_teal 0)),
     (Eq Txn_on_completion (OnComplete NoOp), handle_noop)
   ]"

definition clear_state_program :: stmt where
  "clear_state_program = Return (Int_teal 1)"

section \<open>Calls to the counter application\<close>

text \<open>
  The ledger runs a program on the application's global state with a fresh scratch
  space. The call is approved when the program returns a value other than \<open>0\<close>, and
  only then are its writes kept; a failing or rejected call leaves the state as it was.
\<close>

definition run_program :: "stmt \<Rightarrow> global_state \<Rightarrow> txn \<Rightarrow> global_state \<times> bool" where
  "run_program p g t =
     (case p t \<lparr>globals = g, scratch = uint64 0\<rparr> of
        Exit v m \<Rightarrow> if v \<noteq> 0 then (globals m, True) else (g, False)
      | Next _ _ \<Rightarrow> (g, False)
      | Fail _ \<Rightarrow> (g, False))"

text \<open>
  The application is deployed with both programs (\<open>create_app\<close> passes the approval
  and the clear program). A call whose on-completion action is \<open>ClearState\<close> runs the
  clear-state program; every other call runs the approval program.
\<close>

definition app_call :: "global_state \<Rightarrow> txn \<Rightarrow> global_state \<times> bool" where
  "app_call g t =
     (if on_completion t = ClearState then run_program clear_state_program g t
      else run_program approval_program g t)"

text \<open>
  The transactions that \<open>create_app\<close> and \<open>call_app\<close> build and send alone
  (\<open>send_transactions([signed_txn])\<close>, a group of one): an application call with
  on-completion \<open>NoOp\<close>, to application \<open>0\<close> for a creation.
\<close>

definition create_app_txn :: txn where
  "create_app_txn = \<lparr>type_enum = ApplicationCall, receiver = [], application_id = 0,
     on_completion = NoOp, application_args = [], group_size = 1\<rparr>"

definition call_app_txn :: "int \<Rightarrow> string list \<Rightarrow> txn" where
  "call_app_txn index app_args = \<lparr>type_enum = ApplicationCall, receiver = [],
     application_id = index, on_completion = NoOp, application_args = app_args,
     group_size = 1\<rparr>"

definition created :: global_state where
  "created = fst (app_call Map.empty create_app_txn)"

datatype op = Add | Deduct

fun op_arg :: "op \<Rightarrow> string" where
  "op_arg Add = ''Add''"
| "op_arg Deduct = ''Deduct''"

definition apply_op :: "int \<Rightarrow> global_state \<Rightarrow> op \<Rightarrow> global_state" where
  "apply_op app_id g x = fst (app_call g (call_app_txn app_id [op_arg x]))"

definition approved_op :: "int \<Rightarrow> global_state \<Rightarrow> op \<Rightarrow> bool" where
  "approved_op app_id g x = snd (app_call g (call_app_txn app_id [op_arg x]))"

fun run_ops :: "int \<Rightarrow> global_state \<Rightarrow> op list \<Rightarrow> global_state" where
  "run_ops app_id g [] = g"
| "run_ops app_id g (x # xs) = run_ops app_id (apply_op app_id g x) xs"

text \<open>Whether every call of the sequence is approved, each on the state the calls before
  it left.\<close>

fun all_approved :: "int \<Rightarrow> global_state \<Rightarrow> op list \<Rightarrow> bool" where
  "all_approved app_id g [] = True"
| "all_approved app_id g (x # xs) =
     (approved_op app_id g x \<and> all_approved app_id (apply_op app_id g x) xs)"

text \<open>The stored counter, as \<open>get_app_global_state(app_id)[b"Count"]\<close> reads it.\<close>

definition counter_value :: "global_state \<Rightarrow> int option" where
  "counter_value g = (case g ''Count'' of Some (uint64 v) \<Rightarrow> Some v | _ \<Rightarrow> None)"


section \<open>The donation smart signature\<close>

text \<open>
  \<open>Addr\<close> refuses a text that has not the form of an address when the program is
  built; what follows is about the program once it is built.
\<close>

definition donation_escrow :: "string \<Rightarrow> expr" where
  "donation_escrow benefactor = And [
     Eq Txn_type_enum (TxnType Payment),
     Eq Txn_receiver (Addr benefactor),
     Eq Global_group_size (Int_teal 1)
   ]"

text \<open>
  A smart signature authorises the transaction when its program ends, without failing,
  on a value other than \<open>0\<close>. It has no state to read or write.
\<close>

definition lsig_approves :: "expr \<Rightarrow> txn \<Rightarrow> bool" where
  "lsig_approves p t =
     (case p t \<lparr>globals = Map.empty, scratch = uint64 0\<rparr> of
        Next (uint64 v) _ \<Rightarrow> v \<noteq> 0
      | Next (bytes _) _ \<Rightarrow> False
      | Exit v _ \<Rightarrow> v \<noteq> 0
      | Fail _ \<Rightarrow> False)"

text \<open>
  The payment that \<open>lsig_payment_txn\<close> builds and sends alone, as far as the program
  reads it: \<open>PaymentTxn(escrow_address, params, rcv, amt)\<close>.
\<close>

definition payment_txn :: "string \<Rightarrow> txn" where
  "payment_txn rcv = \<lparr>type_enum = Payment, receiver = rcv, application_id = 0,
     on_completion = NoOp, application_args = [], group_size = 1\<rparr>"

section \<open>Waiting for confirmation\<close>

text \<open>
  The exceptions of the Python side. The sources raise a plain \<open>Exception\<close> with a
  message for a pool error, for a timeout and for an unexpected state type; each is a
  constructor here, with the value the message is formatted from.
\<close>

datatype py_error =
    PoolError string
  | Timeout int
  | KeyError string
  | Base64Error
  | UnicodeDecodeError
  | UnexpectedStateType int

text \<open>
  What \<open>pending_transaction_info\<close> answers: a dictionary, of which the loop reads the
  keys \<open>confirmed-round\<close> (with \<open>.get\<close>, so it may be absent) and \<open>pool-error\<close>
  (by index), or an exception of the client.
\<close>

record pending_txn =
  confirmed_round :: "int option"
  pool_error :: "string option"

datatype poll = Raises | Responds pending_txn

text \<open>
  The node as the loop sees it: its last round, and what it answers to the polls for a
  transaction, the first poll, the second, and so on. \<open>polls\<close> counts the polls made so
  far. \<open>status\<close> and \<open>status_after_block\<close> are taken to answer; the loop does not
  catch their exceptions.
\<close>

record client =
  last_round :: int
  responses :: "string \<Rightarrow> nat \<Rightarrow> poll"
  polls :: nat

definition pending_transaction_info :: "client \<Rightarrow> string \<Rightarrow> poll \<times> client" where
  "pending_transaction_info c transaction_id =
     (responses c transaction_id (polls c), c\<lparr>polls := Suc (polls c)\<rparr>)"

definition status_after_block :: "client \<Rightarrow> int \<Rightarrow> client" where
  "status_after_block c r = c\<lparr>last_round := max (last_round c) (r + 1)\<rparr>"

text \<open>
  The \<open>while\<close> loop of \<open>wait_for_confirmation\<close>, which is the same in
  \<open>counter_contract.py\<close>, in \<open>donation_smart_sig.py\<close> and, as
  \<open>_wait_for_confirmation\<close>, in the test helpers. Python's bare \<open>return\<close> gives
  \<open>None\<close>.
\<close>

function wait_loop ::
  "client \<Rightarrow> string \<Rightarrow> int \<Rightarrow> int \<Rightarrow> int \<Rightarrow> (py_error + pending_txn option) \<times> client" where
  "wait_loop c transaction_id timeout start_round current_round =
     (if current_round < start_round + timeout then
        (case pending_transaction_info c transaction_id of
           (Raises, c1) \<Rightarrow> (Inr None, c1)
         | (Responds pending, c1) \<Rightarrow>
             if (case confirmed_round pending of None \<Rightarrow> 0 | Some r \<Rightarrow> r) > 0
             then (Inr (Some pending), c1)
             else (case pool_error pending of
                     None \<Rightarrow> (Inl (KeyError ''pool-error''), c1)
                   | Some e \<Rightarrow>
                       if e \<noteq> [] then (Inl (PoolError e), c1)
                       else wait_loop (status_after_block c1 current_round) transaction_id
                              timeout start_round (current_round + 1)))
      else (Inl (Timeout timeout), c))"
  by pat_completeness auto
termination
  by (relation "measure (\<lambda>(c, tid, timeout, start_round, current_round).
        nat (start_round + timeout - current_round))") auto

declare wait_loop.simps [simp del]

definition wait_for_confirmation ::
  "client \<Rightarrow> string \<Rightarrow> int \<Rightarrow> (py_error + pending_txn option) \<times> client" where
  "wait_for_confirmation c transaction_id timeout =
     (let start_round = last_round c + 1
      in wait_loop c transaction_id timeout start_round start_round)"

text \<open>
  What a poll reports, in the words of the specification: \<open>confirmed\<close> is a
  confirmed round above \<open>0\<close>; a poll is \<open>still_pending\<close> when the node answers, the
  answer is not confirmed and its pool error is the empty text.
\<close>

definition confirmed :: "pending_txn \<Rightarrow> bool" where
  "confirmed p = ((case confirmed_round p of None \<Rightarrow> 0 | Some r \<Rightarrow> r) > 0)"

definition still_pending :: "poll \<Rightarrow> bool" where
  "still_pending q =
     (case q of Raises \<Rightarrow> False | Responds p \<Rightarrow> \<not> confirmed p \<and> pool_error p = Some [])"

text \<open>
  A node at round \<open>100\<close> that has not been polled yet and gives the same answers for
  every transaction, and three answers: the transaction is in the pool, it was confirmed
  in round \<open>103\<close>, the pool refused it.
\<close>

definition node :: "(nat \<Rightarrow> poll) \<Rightarrow> client" where
  "node answers = \<lparr>last_round = 100, responses = (\<lambda>transaction_id. answers), polls = 0\<rparr>"

definition answer_pending :: pending_txn where
  "answer_pending = \<lparr>confirmed_round = None, pool_error = Some []\<rparr>"

definition answer_confirmed :: pending_txn where
  "answer_confirmed = \<lparr>confirmed_round = Some 103, pool_error = Some []\<rparr>"

definition answer_pool_error :: pending_txn where
  "answer_pool_error = \<lparr>confirmed_round = None, pool_error = Some ''overspend''\<rparr>"

section \<open>Formatting the global state\<close>

text \<open>
  An entry of the node's \<open>global-state\<close> list: \<open>item['key']\<close>, and in \<open>item['value']\<close>
  the discriminant \<open>type\<close> and the fields \<open>bytes\<close> and \<open>uint\<close>. The last two are read
  by index in \<open>format_state\<close> and with a default in \<open>get_app_global_state\<close>, so they
  may be absent.
\<close>

record state_value =
  value_type :: int
  value_bytes :: "string option"
  value_uint :: "int option"

record state_item =
  item_key :: string
  item_value :: state_value

datatype py_value = PyStr string | PyBytes string | PyInt int

text \<open>
  \<open>base64.b64decode\<close> and \<open>bytes.decode('utf-8')\<close> belong to the Python library. The
  formatters take them as parameters: what is proved of the formatters holds whatever
  the two decoders accept and return.
\<close>

record codec =
  b64decode :: "string \<Rightarrow> py_error + string"
  decode_utf8 :: "string \<Rightarrow> py_error + string"

definition formatted_key_of :: "codec \<Rightarrow> state_item \<Rightarrow> py_error + string" where
  "formatted_key_of cd item =
     (case b64decode cd (item_key item) of
        Inl e \<Rightarrow> Inl e
      | Inr raw \<Rightarrow> decode_utf8 cd raw)"

text \<open>The body of the loop of \<open>format_state\<close>: the key and the value it stores.\<close>

definition format_item :: "codec \<Rightarrow> state_item \<Rightarrow> py_error + (string \<times> py_value)" where
  "format_item cd item =
     (let value = item_value item in
      case formatted_key_of cd item of
        Inl e \<Rightarrow> Inl e
      | Inr formatted_key \<Rightarrow>
          if value_type value = 1 then
            (if formatted_key = ''voted'' then
               (case value_bytes value of
                  None \<Rightarrow> Inl (KeyError ''bytes'')
                | Some b \<Rightarrow>
                    (case b64decode cd b of
                       Inl e \<Rightarrow> Inl e
                     | Inr raw \<Rightarrow>
                         (case decode_utf8 cd raw of
                            Inl e \<Rightarrow> Inl e
                          | Inr formatted_value \<Rightarrow> Inr (formatted_key, PyStr formatted_value))))
             else
               (case value_bytes value of
                  None \<Rightarrow> Inl (KeyError ''bytes'')
                | Some b \<Rightarrow> Inr (formatted_key, PyStr b)))
          else
            (case value_uint value of
               None \<Rightarrow> Inl (KeyError ''uint'')
             | Some u \<Rightarrow> Inr (formatted_key, PyInt u)))"

fun format_state_from ::
  "codec \<Rightarrow> (string \<rightharpoonup> py_value) \<Rightarrow> state_item list \<Rightarrow> py_error + (string \<rightharpoonup> py_value)" where
  "format_state_from cd formatted [] = Inr formatted"
| "format_state_from cd formatted (item # state) =
     (case format_item cd item of
        Inl e \<Rightarrow> Inl e
      | Inr (formatted_key, formatted_value) \<Rightarrow>
          format_state_from cd (formatted(formatted_key \<mapsto> formatted_value)) state)"

definition format_state :: "codec \<Rightarrow> state_item list \<Rightarrow> py_error + (string \<rightharpoonup> py_value)" where
  "format_state cd state = format_state_from cd Map.empty state"

text \<open>
  The loop of \<open>get_app_global_state\<close> in the test helpers, on the list
  \<open>app_info["params"]["global-state"]\<close>. Its keys stay byte strings.
\<close>

definition global_state_pair :: "codec \<Rightarrow> state_item \<Rightarrow> py_error + (string \<times> py_value)" where
  "global_state_pair cd pair =
     (case b64decode cd (item_key pair) of
        Inl e \<Rightarrow> Inl e
      | Inr key \<Rightarrow>
          (let value = item_value pair; value_type = value_type value in
           if value_type = 1 then
             (case b64decode cd (case value_bytes value of None \<Rightarrow> [] | Some b \<Rightarrow> b) of
                Inl e \<Rightarrow> Inl e
              | Inr raw \<Rightarrow> Inr (key, PyBytes raw))
           else if value_type = 2 then
             Inr (key, PyInt (case value_uint value of None \<Rightarrow> 0 | Some u \<Rightarrow> u))
           else Inl (UnexpectedStateType value_type)))"

fun get_app_global_state_from ::
  "codec \<Rightarrow> (string \<rightharpoonup> py_value) \<Rightarrow> state_item list \<Rightarrow> py_error + (string \<rightharpoonup> py_value)" where
  "get_app_global_state_from cd state [] = Inr state"
| "get_app_global_state_from cd state (pair # pairs) =
     (case global_state_pair cd pair of
        Inl e \<Rightarrow> Inl e
      | Inr (key, value) \<Rightarrow> get_app_global_state_from cd (state(key \<mapsto> value)) pairs)"

definition get_app_global_state :: "codec \<Rightarrow> state_item list \<Rightarrow> py_error + (string \<rightharpoonup> py_value)" where
  "get_app_global_state cd pairs = get_app_global_state_from cd Map.empty pairs"


section \<open>Decoders and entries for concrete states\<close>

text \<open>
  For entries written out in full, the two decoders on the inputs the node produces:
  base64 in the standard alphabet with its padding (RFC 4648), anything else refused,
  and UTF-8 on bytes below 128, which stand for themselves.
\<close>

definition b64_index :: "char \<Rightarrow> nat option" where
  "b64_index ch =
     (let n = (of_char ch :: nat) in
      if 65 \<le> n \<and> n \<le> 90 then Some (n - 65)
      else if 97 \<le> n \<and> n \<le> 122 then Some (n - 71)
      else if 48 \<le> n \<and> n \<le> 57 then Some (n + 4)
      else if n = 43 then Some 62
      else if n = 47 then Some 63
      else None)"

fun b64_bytes :: "nat list \<Rightarrow> py_error + string" where
  "b64_bytes (a # b # c # d # rest) =
     (case b64_bytes rest of
        Inl e \<Rightarrow> Inl e
      | Inr bs \<Rightarrow>
          Inr (char_of (a * 4 + b div 16) # char_of (b mod 16 * 16 + c div 4) #
               char_of (c mod 4 * 64 + d) # bs))"
| "b64_bytes [a, b, c] = Inr [char_of (a * 4 + b div 16), char_of (b mod 16 * 16 + c div 4)]"
| "b64_bytes [a, b] = Inr [char_of (a * 4 + b div 16)]"
| "b64_bytes [a] = Inl Base64Error"
| "b64_bytes [] = Inr []"

definition rfc4648_b64decode :: "string \<Rightarrow> py_error + string" where
  "rfc4648_b64decode s =
     (let body = takeWhile (\<lambda>ch. ch \<noteq> CHR ''='') s;
          pad = dropWhile (\<lambda>ch. ch \<noteq> CHR ''='') s
      in if length s mod 4 = 0 \<and> (pad = [] \<or> pad = ''='' \<or> pad = ''=='') \<and>
            list_all (\<lambda>ch. b64_index ch \<noteq> None) body
         then b64_bytes (map (\<lambda>ch. case b64_index ch of None \<Rightarrow> 0 | Some n \<Rightarrow> n) body)
         else Inl Base64Error)"

definition ascii_decode :: "string \<Rightarrow> py_error + string" where
  "ascii_decode bs =
     (if list_all (\<lambda>ch. (of_char ch :: nat) < 128) bs then Inr bs else Inl UnicodeDecodeError)"

definition library_codec :: codec where
  "library_codec = \<lparr>b64decode = rfc4648_b64decode, decode_utf8 = ascii_decode\<rparr>"


text \<open>
  Entries as the node sends them: the counter (\<open>Count\<close>, an integer), two byte
  strings under the keys \<open>voted\<close> and \<open>Creator\<close>, and an entry whose discriminant
  is \<open>3\<close>.
\<close>

definition count_item :: state_item where
  "count_item = \<lparr>item_key = ''Q291bnQ='',
     item_value = \<lparr>value_type = 2, value_bytes = Some [], value_uint = Some 3\<rparr>\<rparr>"

definition voted_item :: state_item where
  "voted_item = \<lparr>item_key = ''dm90ZWQ='',
     item_value = \<lparr>value_type = 1, value_bytes = Some ''Y2FuZGlkYXRlYQ=='', value_uint = Some 0\<rparr>\<rparr>"

definition creator_item :: state_item where
  "creator_item = \<lparr>item_key = ''Q3JlYXRvcg=='',
     item_value = \<lparr>value_type = 1, value_bytes = Some ''QWxpY2U='', value_uint = Some 0\<rparr>\<rparr>"

definition odd_item :: state_item where
  "odd_item = \<lparr>item_key = ''Q291bnQ='',
     item_value = \<lparr>value_type = 3, value_bytes = Some ''QWRk'', value_uint = Some 0\<rparr>\<rparr>"

section \<open>The counter as the specification describes it\<close>

text \<open>
  The state machine of the specification: states are the values of the counter,
  \<open>Add\<close> goes to \<open>value + 1\<close> and \<open>Deduct\<close> to \<open>max(value - 1, 0)\<close>. The numbers of
  \<open>Add\<close> and of \<open>Deduct\<close> operations of a sequence are \<open>adds\<close> and \<open>deducts\<close>.
\<close>

fun spec_step :: "int \<Rightarrow> op \<Rightarrow> int" where
  "spec_step v Add = v + 1"
| "spec_step v Deduct = max (v - 1) 0"

definition adds :: "op list \<Rightarrow> int" where
  "adds ops = int (count_list ops Add)"

definition deducts :: "op list \<Rightarrow> int" where
  "deducts ops = int (count_list ops Deduct)"

section \<open>Evaluating the approval program\<close>

lemmas teal_defs = approval_program_def handle_noop_def add_def deduct_def on_creation_def
  Eq_def Gt_def Plus_def Minus_def binop_def bind_step_def Int_teal_def Bytes_def
  Txn_application_id_def Txn_on_completion_def Txn_application_args_def Global_group_size_def
  OnComplete_def App_globalGet_def App_globalPut_def scratchCount_store_def scratchCount_load_def
  Return_def If_teal_def

lemma on_complete_code_eq [simp]:
  "on_complete_code oc = 0 \<longleftrightarrow> oc = NoOp"
  "on_complete_code oc = 1 \<longleftrightarrow> oc = OptIn"
  "on_complete_code oc = 2 \<longleftrightarrow> oc = CloseOut"
  "on_complete_code oc = 4 \<longleftrightarrow> oc = UpdateApplication"
  "on_complete_code oc = 5 \<longleftrightarrow> oc = DeleteApplication"
  by (cases oc; simp)+

lemma approval_creation:
  "application_id t = 0 \<Longrightarrow>
   approval_program t m = Exit 1 (m\<lparr>globals := (globals m)(''Count'' \<mapsto> uint64 0)\<rparr>)"
  by (simp add: teal_defs)

lemma approval_completion:
  "application_id t \<noteq> 0 \<Longrightarrow>
   on_completion t \<in> {OptIn, CloseOut, UpdateApplication, DeleteApplication} \<Longrightarrow>
   approval_program t m = Exit 0 m"
  by (auto simp add: teal_defs)

lemma approval_clear:
  "application_id t \<noteq> 0 \<Longrightarrow> on_completion t = ClearState \<Longrightarrow>
   approval_program t m = Fail Err"
  by (auto simp add: teal_defs)

lemma approval_noop:
  "application_id t \<noteq> 0 \<Longrightarrow> on_completion t = NoOp \<Longrightarrow>
   approval_program t m = handle_noop t m"
  by (auto simp add: teal_defs)

lemma handle_noop_group:
  "group_size t \<noteq> 1 \<Longrightarrow> \<exists>e. handle_noop t m = Fail e"
  by (cases "application_args t") (simp_all add: teal_defs)

lemma handle_noop_add:
  "group_size t = 1 \<Longrightarrow> application_args t = ''Add'' # rest \<Longrightarrow> handle_noop t m = add t m"
  by (simp add: handle_noop_def Eq_def binop_def bind_step_def Int_teal_def Bytes_def
      Txn_application_args_def Global_group_size_def)

lemma handle_noop_deduct:
  "group_size t = 1 \<Longrightarrow> application_args t = ''Deduct'' # rest \<Longrightarrow>
   handle_noop t m = deduct t m"
  by (simp add: handle_noop_def Eq_def binop_def bind_step_def Int_teal_def Bytes_def
      Txn_application_args_def Global_group_size_def)

lemma add_uint:
  "globals m ''Count'' = Some (uint64 v) \<Longrightarrow>
   add t m =
     (if v + 1 > uint64_max then Fail Overflow
      else Exit 1 (m\<lparr>globals := (globals m)(''Count'' \<mapsto> uint64 (v + 1)), scratch := uint64 v\<rparr>))"
  by (simp add: teal_defs)

lemma deduct_uint:
  "globals m ''Count'' = Some (uint64 v) \<Longrightarrow>
   deduct t m =
     (if v > 0
      then Exit 1 (m\<lparr>globals := (globals m)(''Count'' \<mapsto> uint64 (v - 1)), scratch := uint64 v\<rparr>)
      else Exit 1 (m\<lparr>scratch := uint64 v\<rparr>))"
  by (simp add: teal_defs)

lemma app_call_approval:
  "on_completion t \<noteq> ClearState \<Longrightarrow>
   app_call g t =
     (case approval_program t \<lparr>globals = g, scratch = uint64 0\<rparr> of
        Exit v m \<Rightarrow> if v \<noteq> 0 then (globals m, True) else (g, False)
      | Next _ _ \<Rightarrow> (g, False)
      | Fail _ \<Rightarrow> (g, False))"
  by (simp add: app_call_def run_program_def)

lemma app_call_clear_state:
  "on_completion t = ClearState \<Longrightarrow> app_call g t = (g, True)"
  by (simp add: app_call_def run_program_def clear_state_program_def Return_def Int_teal_def
      bind_step_def)

lemma app_call_creation:
  "application_id t = 0 \<Longrightarrow> on_completion t \<noteq> ClearState \<Longrightarrow>
   app_call g t = (g(''Count'' \<mapsto> uint64 0), True)"
  by (simp add: app_call_approval approval_creation)

lemma app_call_group:
  "application_id t \<noteq> 0 \<Longrightarrow> on_completion t \<noteq> ClearState \<Longrightarrow> group_size t \<noteq> 1 \<Longrightarrow>
   app_call g t = (g, False)"
proof (cases "on_completion t")
  case NoOp
  assume a: "application_id t \<noteq> 0" "group_size t \<noteq> 1"
  obtain e where "handle_noop t \<lparr>globals = g, scratch = uint64 0\<rparr> = Fail e"
    using handle_noop_group [OF a(2)] by blast
  then show ?thesis using a NoOp by (simp add: app_call_approval approval_noop)
qed (simp_all add: app_call_approval approval_completion)

lemma app_call_add:
  "app_id \<noteq> 0 \<Longrightarrow> g ''Count'' = Some (uint64 v) \<Longrightarrow>
   app_call g (call_app_txn app_id [''Add'']) =
     (if v + 1 > uint64_max then (g, False) else (g(''Count'' \<mapsto> uint64 (v + 1)), True))"
  by (simp add: app_call_approval call_app_txn_def approval_noop handle_noop_add add_uint)

lemma app_call_deduct:
  "app_id \<noteq> 0 \<Longrightarrow> g ''Count'' = Some (uint64 v) \<Longrightarrow>
   app_call g (call_app_txn app_id [''Deduct'']) =
     (if v > 0 then (g(''Count'' \<mapsto> uint64 (v - 1)), True) else (g, True))"
  by (simp add: app_call_approval call_app_txn_def approval_noop handle_noop_deduct deduct_uint)

lemma created_eq: "created = [''Count'' \<mapsto> uint64 0]"
  by (simp add: created_def create_app_txn_def app_call_creation)

lemma counter_value_upd: "counter_value (g(''Count'' \<mapsto> uint64 v)) = Some v"
  by (simp add: counter_value_def)

lemma counter_value_Some: "counter_value g = Some v \<longleftrightarrow> g ''Count'' = Some (uint64 v)"
  by (auto simp: counter_value_def split: option.splits teal_value.splits)

section \<open>The counter after a sequence of operations\<close>

lemma apply_op_uint:
  assumes "app_id \<noteq> 0" "g ''Count'' = Some (uint64 v)" "0 \<le> v" "v < uint64_max"
  shows "apply_op app_id g x = g(''Count'' \<mapsto> uint64 (spec_step v x))"
    and "approved_op app_id g x"
  using assms by (cases x; auto simp: apply_op_def approved_op_def app_call_add app_call_deduct)+

lemma spec_step_bounds: "0 \<le> v \<Longrightarrow> 0 \<le> spec_step v x \<and> spec_step v x \<le> v + 1"
  by (cases x) auto

lemma run_ops_uint:
  "app_id \<noteq> 0 \<Longrightarrow> g ''Count'' = Some (uint64 v) \<Longrightarrow> 0 \<le> v \<Longrightarrow>
   v + int (length ops) \<le> uint64_max \<Longrightarrow>
   all_approved app_id g ops \<and>
   run_ops app_id g ops = g(''Count'' \<mapsto> uint64 (foldl spec_step v ops))"
proof (induction ops arbitrary: g v)
  case Nil
  then show ?case by (auto simp: fun_upd_idem)
next
  case (Cons x xs)
  let ?g = "g(''Count'' \<mapsto> uint64 (spec_step v x))"
  have lt: "v < uint64_max" using Cons.prems by simp
  have st: "apply_op app_id g x = ?g" "approved_op app_id g x"
    using apply_op_uint [of app_id g v x] Cons.prems lt by simp_all
  have b: "0 \<le> spec_step v x" "spec_step v x \<le> v + 1"
    using spec_step_bounds [OF Cons.prems(3)] by simp_all
  have "all_approved app_id ?g xs \<and>
        run_ops app_id ?g xs = ?g(''Count'' \<mapsto> uint64 (foldl spec_step (spec_step v x) xs))"
    using Cons.prems b by (intro Cons.IH) auto
  then show ?case using st by simp
qed

lemma foldl_spec_step_lower:
  "0 \<le> v \<Longrightarrow> 0 \<le> foldl spec_step v ops \<and> v + adds ops - deducts ops \<le> foldl spec_step v ops"
proof (induction ops arbitrary: v)
  case Nil
  then show ?case by (simp add: adds_def deducts_def)
next
  case (Cons x xs)
  have "0 \<le> spec_step v x" using spec_step_bounds Cons.prems by blast
  from Cons.IH [OF this] show ?case
    by (cases x) (auto simp: adds_def deducts_def)
qed

lemma foldl_spec_step_exact:
  "\<forall>k\<le>length ops. 0 \<le> v + adds (take k ops) - deducts (take k ops) \<Longrightarrow>
   foldl spec_step v ops = v + adds ops - deducts ops"
proof (induction ops arbitrary: v)
  case Nil
  then show ?case by (simp add: adds_def deducts_def)
next
  case (Cons x xs)
  have one: "0 \<le> v + adds [x] - deducts [x]"
    using Cons.prems [rule_format, of 1] by simp
  have step: "spec_step v x = v + adds [x] - deducts [x]"
    using one by (cases x) (auto simp: adds_def deducts_def)
  have "\<forall>k\<le>length xs. 0 \<le> spec_step v x + adds (take k xs) - deducts (take k xs)"
  proof (intro allI impI)
    fix k assume "k \<le> length xs"
    then have "0 \<le> v + adds (take (Suc k) (x # xs)) - deducts (take (Suc k) (x # xs))"
      using Cons.prems [rule_format, of "Suc k"] by simp
    then show "0 \<le> spec_step v x + adds (take k xs) - deducts (take k xs)"
      unfolding step by (cases x) (auto simp: adds_def deducts_def)
  qed
  then have "foldl spec_step (spec_step v x) xs = spec_step v x + adds xs - deducts xs"
    by (rule Cons.IH)
  also have "\<dots> = v + adds (x # xs) - deducts (x # xs)"
    unfolding step by (cases x) (simp_all add: adds_def deducts_def)
  finally show ?case by simp
qed

text \<open>
  Claim C1, as the code has it. Take a freshly created counter and a sequence of fewer
  than \<open>2^64\<close> \<open>Add\<close> and \<open>Deduct\<close> operations, each sent alone to the application.
  Every call is approved, and the stored value is the one the transitions
  \<open>Add \<rightarrow> value + 1\<close>, \<open>Deduct \<rightarrow> max(value - 1, 0)\<close> lead to from \<open>0\<close>. That value is
  never negative and never below \<open>max(0, adds - deducts)\<close>; it is equal to
  \<open>max(0, adds - deducts)\<close> when no prefix of the sequence has more \<open>Deduct\<close> than
  \<open>Add\<close> operations, that is, when no \<open>Deduct\<close> meets a counter at \<open>0\<close>.
\<close>

theorem counter_follows_saturating_steps:
  assumes "app_id \<noteq> 0" and "int (length ops) \<le> uint64_max"
  shows "all_approved app_id created ops \<and>
         counter_value (run_ops app_id created ops) = Some (foldl spec_step 0 ops) \<and>
         0 \<le> foldl spec_step 0 ops \<and>
         max 0 (adds ops - deducts ops) \<le> foldl spec_step 0 ops \<and>
         ((\<forall>k\<le>length ops. deducts (take k ops) \<le> adds (take k ops)) \<longrightarrow>
            foldl spec_step 0 ops = max 0 (adds ops - deducts ops))"
proof -
  have c: "created ''Count'' = Some (uint64 0)"
    by (simp add: created_eq)
  have run: "all_approved app_id created ops \<and>
        run_ops app_id created ops = created(''Count'' \<mapsto> uint64 (foldl spec_step 0 ops))"
    using assms c by (intro run_ops_uint) auto
  have low: "0 \<le> foldl spec_step 0 ops \<and> 0 + adds ops - deducts ops \<le> foldl spec_step 0 ops"
    by (rule foldl_spec_step_lower) simp
  have exact: "foldl spec_step 0 ops = max 0 (adds ops - deducts ops)"
    if h: "\<forall>k\<le>length ops. deducts (take k ops) \<le> adds (take k ops)"
  proof -
    have "\<forall>k\<le>length ops. 0 \<le> 0 + adds (take k ops) - deducts (take k ops)"
      using h by auto
    then have "foldl spec_step 0 ops = 0 + adds ops - deducts ops"
      by (rule foldl_spec_step_exact)
    moreover have "deducts ops \<le> adds ops"
      using h [rule_format, of "length ops"] by simp
    ultimately show ?thesis by simp
  qed
  show ?thesis using run low exact by (simp add: counter_value_upd)
qed

text \<open>
  The scenario of the specification: three \<open>Add\<close> calls and then two \<open>Deduct\<close> calls
  leave the counter at \<open>1\<close>.
\<close>

theorem counter_follows_saturating_steps_witness:
  "(7::int) \<noteq> 0 \<and> int (length [Add, Add, Add, Deduct, Deduct]) \<le> uint64_max \<and>
   all_approved 7 created [Add, Add, Add, Deduct, Deduct] \<and>
   counter_value (run_ops 7 created [Add, Add, Add, Deduct, Deduct]) = Some 1 \<and>
   max 0 (adds [Add, Add, Add, Deduct, Deduct] - deducts [Add, Add, Add, Deduct, Deduct]) = 1"
proof -
  have n: "(7::int) \<noteq> 0" by simp
  have l: "int (length [Add, Add, Add, Deduct, Deduct]) \<le> uint64_max"
    by (simp add: uint64_max_def)
  have p: "\<forall>k\<le>length [Add, Add, Add, Deduct, Deduct].
     deducts (take k [Add, Add, Add, Deduct, Deduct]) \<le> adds (take k [Add, Add, Add, Deduct, Deduct])"
    by (auto simp: le_Suc_eq adds_def deducts_def)
  show ?thesis
    using counter_follows_saturating_steps [OF n l] p l by (simp add: adds_def deducts_def)
qed

text \<open>
  The formula \<open>max(0, adds - deducts)\<close> itself fails: after a \<open>Deduct\<close> on the fresh
  counter and then an \<open>Add\<close> the stored value is \<open>1\<close>, and the formula gives \<open>0\<close>.
\<close>

theorem net_formula_fails_after_deduct_at_zero:
  "counter_value (run_ops 7 created [Deduct, Add]) = Some 1 \<and>
   max 0 (adds [Deduct, Add] - deducts [Deduct, Add]) = 0"
  by (simp add: created_eq apply_op_def app_call_add app_call_deduct counter_value_def
      adds_def deducts_def uint64_max_def)


section \<open>Deduct at zero, and the sign of the counter\<close>

text \<open>
  Claim C6. A \<open>Deduct\<close> call (a \<open>NoOp\<close> call to the application, alone in its group,
  with first argument \<open>Deduct\<close>) on a state whose counter is \<open>0\<close> is approved, and the
  state after it is the state before it: the counter is still \<open>0\<close>.
\<close>

theorem deduct_at_zero_is_approved_noop:
  assumes "application_id t \<noteq> 0" and "on_completion t = NoOp" and "group_size t = 1"
    and "application_args t = ''Deduct'' # rest" and "counter_value g = Some 0"
  shows "app_call g t = (g, True) \<and> counter_value (fst (app_call g t)) = Some 0"
proof -
  have "g ''Count'' = Some (uint64 0)"
    using assms(5) by (simp add: counter_value_Some)
  then have "app_call g t = (g, True)"
    using assms(1-4) by (simp add: app_call_approval approval_noop handle_noop_deduct deduct_uint)
  then show ?thesis using assms(5) by simp
qed

theorem deduct_at_zero_is_approved_noop_witness:
  "application_id (call_app_txn 7 [''Deduct'']) \<noteq> 0 \<and>
   on_completion (call_app_txn 7 [''Deduct'']) = NoOp \<and>
   group_size (call_app_txn 7 [''Deduct'']) = 1 \<and>
   application_args (call_app_txn 7 [''Deduct'']) = ''Deduct'' # [] \<and>
   counter_value created = Some 0 \<and>
   app_call created (call_app_txn 7 [''Deduct'']) = (created, True)"
proof -
  have a: "application_id (call_app_txn 7 [''Deduct'']) \<noteq> 0"
    "on_completion (call_app_txn 7 [''Deduct'']) = NoOp"
    "group_size (call_app_txn 7 [''Deduct'']) = 1"
    "application_args (call_app_txn 7 [''Deduct'']) = ''Deduct'' # []"
    by (simp_all add: call_app_txn_def)
  have c: "counter_value created = Some 0"
    by (simp add: created_eq counter_value_def)
  show ?thesis using deduct_at_zero_is_approved_noop [OF a c] a c by simp
qed

lemma apply_op_keeps_uint:
  assumes "app_id \<noteq> 0" "g ''Count'' = Some (uint64 v)" "0 \<le> v"
  shows "\<exists>w. apply_op app_id g x ''Count'' = Some (uint64 w) \<and> 0 \<le> w"
  using assms by (cases x) (auto simp: apply_op_def app_call_add app_call_deduct)

lemma run_ops_keeps_uint:
  "app_id \<noteq> 0 \<Longrightarrow> g ''Count'' = Some (uint64 v) \<Longrightarrow> 0 \<le> v \<Longrightarrow>
   \<exists>w. run_ops app_id g ops ''Count'' = Some (uint64 w) \<and> 0 \<le> w"
proof (induction ops arbitrary: g v)
  case Nil
  then show ?case by auto
next
  case (Cons x xs)
  obtain w where "apply_op app_id g x ''Count'' = Some (uint64 w)" "0 \<le> w"
    using apply_op_keeps_uint [of app_id g v x] Cons.prems by blast
  then show ?case using Cons.IH [OF Cons.prems(1)] by simp
qed

text \<open>
  Claim C7. After any sequence of \<open>Add\<close> and \<open>Deduct\<close> operations on the created
  application, of any length, the state holds an integer counter that is not negative.
  Where that counter is \<open>0\<close>, a further \<open>Deduct\<close> is approved and changes nothing: the
  call does not fail.
\<close>

theorem counter_never_negative:
  assumes "app_id \<noteq> 0"
  shows "(\<exists>v. counter_value (run_ops app_id created ops) = Some v \<and> 0 \<le> v) \<and>
         (counter_value (run_ops app_id created ops) = Some 0 \<longrightarrow>
            approved_op app_id (run_ops app_id created ops) Deduct \<and>
            apply_op app_id (run_ops app_id created ops) Deduct = run_ops app_id created ops)"
proof -
  have "created ''Count'' = Some (uint64 0)" by (simp add: created_eq)
  then have "\<exists>w. run_ops app_id created ops ''Count'' = Some (uint64 w) \<and> 0 \<le> w"
    using assms run_ops_keeps_uint [of app_id created 0 ops] by simp
  then have inv: "\<exists>v. counter_value (run_ops app_id created ops) = Some v \<and> 0 \<le> v"
    by (auto simp: counter_value_Some)
  have "approved_op app_id g Deduct \<and> apply_op app_id g Deduct = g"
    if "counter_value g = Some 0" for g
    using that assms by (simp add: counter_value_Some approved_op_def apply_op_def app_call_deduct)
  then show ?thesis using inv by blast
qed

theorem counter_never_negative_witness:
  "(7::int) \<noteq> 0 \<and>
   (\<exists>v. counter_value (run_ops 7 created [Add, Deduct]) = Some v \<and> 0 \<le> v) \<and>
   counter_value (run_ops 7 created [Add, Deduct]) = Some 0 \<and>
   approved_op 7 (run_ops 7 created [Add, Deduct]) Deduct \<and>
   apply_op 7 (run_ops 7 created [Add, Deduct]) Deduct = run_ops 7 created [Add, Deduct]"
proof -
  have n: "(7::int) \<noteq> 0" by simp
  have z: "counter_value (run_ops 7 created [Add, Deduct]) = Some 0"
    by (simp add: created_eq apply_op_def app_call_add app_call_deduct counter_value_def
        uint64_max_def)
  show ?thesis using counter_never_negative [OF n, of "[Add, Deduct]"] z by simp
qed

section \<open>Groups and on-completion actions\<close>

text \<open>
  Claim C8, as the code has it. Take a call that the approval program decides (its
  on-completion action is not \<open>ClearState\<close>) to an application that exists (its
  application id is not \<open>0\<close>). In a group of any size other than \<open>1\<close> the call is
  rejected and the state is left as it was: neither \<open>add\<close> nor \<open>deduct\<close> runs. Two
  calls are outside this rule. The creation call (application id \<open>0\<close>) is approved in
  any group: its branch comes first and does not read the group size. A \<open>ClearState\<close>
  call is not given to the approval program at all.
\<close>

theorem grouped_call_is_rejected:
  assumes "application_id t \<noteq> 0" and "on_completion t \<noteq> ClearState"
    and "group_size t \<noteq> 1"
  shows "app_call g t = (g, False)"
  using assms by (rule app_call_group)

text \<open>Two \<open>Add\<close> calls in one group: each of them is evaluated with group size \<open>2\<close>.\<close>

theorem grouped_call_is_rejected_witness:
  "application_id ((call_app_txn 7 [''Add''])\<lparr>group_size := 2\<rparr>) \<noteq> 0 \<and>
   on_completion ((call_app_txn 7 [''Add''])\<lparr>group_size := 2\<rparr>) \<noteq> ClearState \<and>
   group_size ((call_app_txn 7 [''Add''])\<lparr>group_size := 2\<rparr>) \<noteq> 1 \<and>
   app_call created ((call_app_txn 7 [''Add''])\<lparr>group_size := 2\<rparr>) = (created, False)"
proof -
  have a: "application_id ((call_app_txn 7 [''Add''])\<lparr>group_size := 2\<rparr>) \<noteq> 0"
    "on_completion ((call_app_txn 7 [''Add''])\<lparr>group_size := 2\<rparr>) \<noteq> ClearState"
    "group_size ((call_app_txn 7 [''Add''])\<lparr>group_size := 2\<rparr>) \<noteq> 1"
    by (simp_all add: call_app_txn_def)
  show ?thesis using grouped_call_is_rejected [OF a] a by simp
qed

text \<open>
  The claim as it is written covers every application call. The creation call in a
  group of two is an application call in a group of size other than \<open>1\<close>, and it is
  approved and writes the counter.
\<close>

theorem creation_in_group_is_approved:
  "group_size (create_app_txn\<lparr>group_size := 2\<rparr>) \<noteq> 1 \<and>
   app_call Map.empty (create_app_txn\<lparr>group_size := 2\<rparr>) = ([''Count'' \<mapsto> uint64 0], True)"
  by (simp add: create_app_txn_def app_call_creation)

text \<open>
  A \<open>ClearState\<close> call in a group of two runs the clear-state program, which returns
  \<open>1\<close>: the call is accepted, with the counter as it was.
\<close>

lemma clear_state_in_group_is_accepted:
  "app_call created ((call_app_txn 7 [])\<lparr>on_completion := ClearState, group_size := 2\<rparr>)
     = (created, True)"
  by (simp add: app_call_clear_state)

text \<open>
  Claim C9. On an application that exists, a call whose on-completion action is opt-in,
  close-out, update-application or delete-application makes the program return \<open>0\<close>
  with the machine untouched; the call is rejected and the state stays as it was.
\<close>

theorem other_completions_are_rejected:
  assumes "application_id t \<noteq> 0"
    and "on_completion t \<in> {OptIn, CloseOut, UpdateApplication, DeleteApplication}"
  shows "approval_program t m = Exit 0 m \<and> app_call g t = (g, False)"
  using assms by (auto simp add: app_call_approval approval_completion)

theorem other_completions_are_rejected_witness:
  "application_id ((call_app_txn 7 [])\<lparr>on_completion := OptIn\<rparr>) \<noteq> 0 \<and>
   approval_program ((call_app_txn 7 [])\<lparr>on_completion := OptIn\<rparr>)
       \<lparr>globals = created, scratch = uint64 0\<rparr>
     = Exit 0 \<lparr>globals = created, scratch = uint64 0\<rparr> \<and>
   app_call created ((call_app_txn 7 [])\<lparr>on_completion := OptIn\<rparr>) = (created, False) \<and>
   app_call created ((call_app_txn 7 [])\<lparr>on_completion := CloseOut\<rparr>) = (created, False) \<and>
   app_call created ((call_app_txn 7 [])\<lparr>on_completion := UpdateApplication\<rparr>) = (created, False) \<and>
   app_call created ((call_app_txn 7 [])\<lparr>on_completion := DeleteApplication\<rparr>) = (created, False)"
  using other_completions_are_rejected [of "(call_app_txn 7 [])\<lparr>on_completion := OptIn\<rparr>"
      "\<lparr>globals = created, scratch = uint64 0\<rparr>" created]
    other_completions_are_rejected [of "(call_app_txn 7 [])\<lparr>on_completion := CloseOut\<rparr>"
      "\<lparr>globals = created, scratch = uint64 0\<rparr>" created]
    other_completions_are_rejected [of "(call_app_txn 7 [])\<lparr>on_completion := UpdateApplication\<rparr>"
      "\<lparr>globals = created, scratch = uint64 0\<rparr>" created]
    other_completions_are_rejected [of "(call_app_txn 7 [])\<lparr>on_completion := DeleteApplication\<rparr>"
      "\<lparr>globals = created, scratch = uint64 0\<rparr>" created]
  by (simp add: call_app_txn_def)

section \<open>The donation predicate\<close>

lemma txn_type_code_payment [simp]: "txn_type_code ty = 1 \<longleftrightarrow> ty = Payment"
  by (cases ty) simp_all

text \<open>
  Claim C4. The donation program authorises a transaction exactly when the transaction
  is a payment, its receiver is the benefactor the program was built with, and it is
  alone in its group. So a transaction to any other receiver is refused, and so is one
  in a larger group, whatever its receiver.
\<close>

theorem donation_escrow_approves_iff:
  "(lsig_approves (donation_escrow benefactor) t \<longleftrightarrow>
      type_enum t = Payment \<and> receiver t = benefactor \<and> group_size t = 1) \<and>
   (receiver t \<noteq> benefactor \<longrightarrow> \<not> lsig_approves (donation_escrow benefactor) t) \<and>
   (group_size t > 1 \<longrightarrow> \<not> lsig_approves (donation_escrow benefactor) t)"
  by (auto simp add: lsig_approves_def donation_escrow_def Eq_def binop_def bind_step_def
      Txn_type_enum_def Txn_receiver_def Global_group_size_def TxnType_def Int_teal_def Addr_def)

text \<open>
  The withdrawal of \<open>main\<close> to the benefactor is authorised; the same payment to the
  zero address is not, nor is the payment to the benefactor in a group of two.
\<close>

theorem donation_escrow_approves_iff_witness:
  "lsig_approves (donation_escrow ''UFAGBH5BHBAKDSSSBKP6LAZ7VFIA3ETNK7LVNEH6KXRRNTYE6WYHTEMEGU'')
     (payment_txn ''UFAGBH5BHBAKDSSSBKP6LAZ7VFIA3ETNK7LVNEH6KXRRNTYE6WYHTEMEGU'') \<and>
   \<not> lsig_approves (donation_escrow ''UFAGBH5BHBAKDSSSBKP6LAZ7VFIA3ETNK7LVNEH6KXRRNTYE6WYHTEMEGU'')
     (payment_txn ''AAAAAAAAAAAAAAAAAAAAAAAAAAAAAAAAAAAAAAAAAAAAAAAAAAAAY5HFKQ'') \<and>
   \<not> lsig_approves (donation_escrow ''UFAGBH5BHBAKDSSSBKP6LAZ7VFIA3ETNK7LVNEH6KXRRNTYE6WYHTEMEGU'')
     ((payment_txn ''UFAGBH5BHBAKDSSSBKP6LAZ7VFIA3ETNK7LVNEH6KXRRNTYE6WYHTEMEGU'')\<lparr>group_size := 2\<rparr>)"
  using donation_escrow_approves_iff [of "''UFAGBH5BHBAKDSSSBKP6LAZ7VFIA3ETNK7LVNEH6KXRRNTYE6WYHTEMEGU''"
      "payment_txn ''UFAGBH5BHBAKDSSSBKP6LAZ7VFIA3ETNK7LVNEH6KXRRNTYE6WYHTEMEGU''"]
    donation_escrow_approves_iff [of "''UFAGBH5BHBAKDSSSBKP6LAZ7VFIA3ETNK7LVNEH6KXRRNTYE6WYHTEMEGU''"
      "payment_txn ''AAAAAAAAAAAAAAAAAAAAAAAAAAAAAAAAAAAAAAAAAAAAAAAAAAAAY5HFKQ''"]
    donation_escrow_approves_iff [of "''UFAGBH5BHBAKDSSSBKP6LAZ7VFIA3ETNK7LVNEH6KXRRNTYE6WYHTEMEGU''"
      "(payment_txn ''UFAGBH5BHBAKDSSSBKP6LAZ7VFIA3ETNK7LVNEH6KXRRNTYE6WYHTEMEGU'')\<lparr>group_size := 2\<rparr>"]
  by (simp add: payment_txn_def)


section \<open>The polling loop\<close>

lemma wait_loop_skip:
  "(\<forall>j<k. still_pending (responses c tid (polls c + j))) \<Longrightarrow>
   current_round + int k \<le> start_round + timeout \<Longrightarrow>
   \<exists>c'. wait_loop c tid timeout start_round current_round =
           wait_loop c' tid timeout start_round (current_round + int k) \<and>
        responses c' = responses c \<and> polls c' = polls c + k"
proof (induction k arbitrary: c current_round)
  case 0
  then show ?case by auto
next
  case (Suc k)
  let ?c1 = "status_after_block (c\<lparr>polls := Suc (polls c)\<rparr>) current_round"
  have first: "still_pending (responses c tid (polls c))"
    using Suc.prems(1) [rule_format, of 0] by simp
  have lt: "current_round < start_round + timeout"
    using Suc.prems(2) by simp
  have unfold: "wait_loop c tid timeout start_round current_round =
      wait_loop ?c1 tid timeout start_round (current_round + 1)"
    using first lt
    by (subst wait_loop.simps)
       (auto simp: pending_transaction_info_def still_pending_def confirmed_def
          split: poll.splits option.splits)
  have r1: "responses ?c1 = responses c" and p1: "polls ?c1 = Suc (polls c)"
    by (simp_all add: status_after_block_def)
  have rest: "\<forall>j<k. still_pending (responses ?c1 tid (polls ?c1 + j))"
  proof (intro allI impI)
    fix j assume "j < k"
    then have "still_pending (responses c tid (polls c + Suc j))"
      using Suc.prems(1) [rule_format, of "Suc j"] by simp
    then show "still_pending (responses ?c1 tid (polls ?c1 + j))"
      by (simp add: r1 p1)
  qed
  have "current_round + 1 + int k \<le> start_round + timeout"
    using Suc.prems(2) by simp
  from Suc.IH [OF rest this]
  obtain c' where c': "wait_loop ?c1 tid timeout start_round (current_round + 1) =
           wait_loop c' tid timeout start_round (current_round + 1 + int k)"
        "responses c' = responses ?c1" "polls c' = polls ?c1 + k"
    by blast
  have e: "current_round + 1 + int k = current_round + int (Suc k)" by simp
  have "wait_loop c tid timeout start_round current_round =
      wait_loop c' tid timeout start_round (current_round + int (Suc k))"
    using unfold c'(1) unfolding e by simp
  moreover have "responses c' = responses c" "polls c' = polls c + Suc k"
    using c'(2,3) r1 p1 by simp_all
  ultimately show ?case by blast
qed

lemma wait_loop_polls_le:
  "polls (snd (wait_loop c tid timeout start_round current_round)) \<le>
     polls c + nat (start_round + timeout - current_round)"
proof (induction c tid timeout start_round current_round rule: wait_loop.induct)
  case (1 c tid timeout start_round current_round)
  show ?case
  proof (cases "current_round < start_round + timeout")
    case False
    then show ?thesis by (subst wait_loop.simps) simp
  next
    case True
    show ?thesis
    proof (cases "responses c tid (polls c)")
      case Raises
      then show ?thesis using True
        by (subst wait_loop.simps) (simp add: pending_transaction_info_def)
    next
      case (Responds p)
      show ?thesis
      proof (cases "still_pending (Responds p)")
        case False
        then show ?thesis using True Responds
          by (subst wait_loop.simps)
             (auto simp: pending_transaction_info_def still_pending_def confirmed_def
               split: option.splits)
      next
        case sp: True
        let ?c1 = "status_after_block (c\<lparr>polls := Suc (polls c)\<rparr>) current_round"
        have ih: "polls (snd (wait_loop ?c1 tid timeout start_round (current_round + 1))) \<le>
              polls ?c1 + nat (start_round + timeout - (current_round + 1))"
          using sp True Responds
          by (intro "1.IH" [of "Responds p" "c\<lparr>polls := Suc (polls c)\<rparr>" p "[]"])
             (auto simp: pending_transaction_info_def still_pending_def confirmed_def)
        have eq: "wait_loop c tid timeout start_round current_round =
            wait_loop ?c1 tid timeout start_round (current_round + 1)"
          using sp True Responds
          by (subst wait_loop.simps)
             (auto simp: pending_transaction_info_def still_pending_def confirmed_def
               split: option.splits)
        have "polls ?c1 = Suc (polls c)" by (simp add: status_after_block_def)
        then show ?thesis using ih eq True by simp
      qed
    qed
  qed
qed


lemma wait_loop_decides:
  assumes "\<forall>j<k. still_pending (responses c tid (polls c + j))"
    and "current_round + int k < start_round + timeout"
    and "responses c tid (polls c + k) = Responds p"
  shows "confirmed p \<Longrightarrow>
           fst (wait_loop c tid timeout start_round current_round) = Inr (Some p) \<and>
           polls (snd (wait_loop c tid timeout start_round current_round)) = polls c + k + 1"
    and "\<not> confirmed p \<Longrightarrow> pool_error p = Some e \<Longrightarrow> e \<noteq> [] \<Longrightarrow>
           fst (wait_loop c tid timeout start_round current_round) = Inl (PoolError e) \<and>
           polls (snd (wait_loop c tid timeout start_round current_round)) = polls c + k + 1"
proof -
  have "current_round + int k \<le> start_round + timeout"
    using assms(2) by simp
  from wait_loop_skip [OF assms(1) this]
  obtain c' where c': "wait_loop c tid timeout start_round current_round =
       wait_loop c' tid timeout start_round (current_round + int k)"
      "responses c' = responses c" "polls c' = polls c + k"
    by blast
  have r: "responses c' tid (polls c') = Responds p"
    using assms(3) c'(2,3) by simp
  show "confirmed p \<Longrightarrow>
           fst (wait_loop c tid timeout start_round current_round) = Inr (Some p) \<and>
           polls (snd (wait_loop c tid timeout start_round current_round)) = polls c + k + 1"
    unfolding c'(1) using assms(2) r c'(3)
    by (subst (1 2) wait_loop.simps) (simp add: pending_transaction_info_def confirmed_def)
  show "\<not> confirmed p \<Longrightarrow> pool_error p = Some e \<Longrightarrow> e \<noteq> [] \<Longrightarrow>
           fst (wait_loop c tid timeout start_round current_round) = Inl (PoolError e) \<and>
           polls (snd (wait_loop c tid timeout start_round current_round)) = polls c + k + 1"
    unfolding c'(1) using assms(2) r c'(3)
    by (subst (1 2) wait_loop.simps) (simp add: pending_transaction_info_def confirmed_def)
qed

lemma wait_loop_timeout:
  assumes "\<forall>j<k. still_pending (responses c tid (polls c + j))"
    and "current_round + int k = start_round + timeout"
  shows "fst (wait_loop c tid timeout start_round current_round) = Inl (Timeout timeout) \<and>
         polls (snd (wait_loop c tid timeout start_round current_round)) = polls c + k"
proof -
  have "current_round + int k \<le> start_round + timeout"
    using assms(2) by simp
  from wait_loop_skip [OF assms(1) this]
  obtain c' where c': "wait_loop c tid timeout start_round current_round =
       wait_loop c' tid timeout start_round (current_round + int k)"
      "responses c' = responses c" "polls c' = polls c + k"
    by blast
  show ?thesis
    unfolding c'(1) using assms(2) c'(3)
    by (subst (1 2) wait_loop.simps) simp
qed

lemma wait_loop_returns_confirmed:
  "nat (start_round + timeout - current_round) = n \<Longrightarrow>
   \<forall>i. responses c tid i \<noteq> Raises \<Longrightarrow>
   fst (wait_loop c tid timeout start_round current_round) = Inr x \<Longrightarrow>
   \<exists>p. x = Some p \<and> confirmed p"
proof (induction n arbitrary: c current_round)
  case 0
  then have "\<not> current_round < start_round + timeout" by simp
  then have "fst (wait_loop c tid timeout start_round current_round) = Inl (Timeout timeout)"
    by (subst wait_loop.simps) simp
  then show ?case using "0.prems"(3) by simp
next
  case (Suc n)
  then have lt: "current_round < start_round + timeout" by simp
  obtain p where p: "responses c tid (polls c) = Responds p"
    using Suc.prems(2) [rule_format, of "polls c"] by (cases "responses c tid (polls c)") auto
  let ?c1 = "status_after_block (c\<lparr>polls := Suc (polls c)\<rparr>) current_round"
  show ?case
  proof (cases "still_pending (Responds p)")
    case True
    have eq: "wait_loop c tid timeout start_round current_round =
        wait_loop ?c1 tid timeout start_round (current_round + 1)"
      using True lt p
      by (subst wait_loop.simps)
         (auto simp: pending_transaction_info_def still_pending_def confirmed_def)
    have a: "nat (start_round + timeout - (current_round + 1)) = n"
      using Suc.prems(1) by simp
    have b: "\<forall>i. responses ?c1 tid i \<noteq> Raises"
      using Suc.prems(2) by (simp add: status_after_block_def)
    show ?thesis using Suc.IH [OF a b] Suc.prems(3) eq by simp
  next
    case False
    then have "fst (wait_loop c tid timeout start_round current_round) =
        (if confirmed p then Inr (Some p)
         else case pool_error p of
                None \<Rightarrow> Inl (KeyError ''pool-error'')
              | Some e \<Rightarrow> Inl (PoolError e))"
      using lt p
      by (subst wait_loop.simps)
         (auto simp: pending_transaction_info_def still_pending_def confirmed_def
            split: option.splits)
    then show ?thesis using Suc.prems(3)
      by (auto split: if_splits option.splits)
  qed
qed

text \<open>
  What the loop does with the answers of the node. \<open>wait_for_confirmation\<close> makes
  at most \<open>timeout\<close> polls. If the first
  \<open>k\<close> polls, with \<open>k < timeout\<close>, find the transaction still pending and the next one
  reports a confirmed round above \<open>0\<close>, the answer of that poll is returned, after
  \<open>k + 1\<close> polls. If instead the next one is not confirmed and reports a pool error, the
  pool-error failure is raised, after \<open>k + 1\<close> polls. If \<open>timeout\<close> polls find the
  transaction still pending, the timeout failure is raised, which is neither a result
  nor the pool-error failure. (An answer that is both confirmed and has a pool error
  counts as confirmed: the loop tests the confirmed round first.) And as long as the
  node answers every poll, the only result that is not a failure is a confirmed answer.
\<close>

theorem wait_for_confirmation_outcomes:
  "polls (snd (wait_for_confirmation c tid timeout)) \<le> polls c + nat timeout \<and>
   (\<forall>k p. int k < timeout \<and> (\<forall>j<k. still_pending (responses c tid (polls c + j))) \<and>
       responses c tid (polls c + k) = Responds p \<and> confirmed p \<longrightarrow>
       fst (wait_for_confirmation c tid timeout) = Inr (Some p) \<and>
       polls (snd (wait_for_confirmation c tid timeout)) = polls c + k + 1) \<and>
   (\<forall>k p e. int k < timeout \<and> (\<forall>j<k. still_pending (responses c tid (polls c + j))) \<and>
       responses c tid (polls c + k) = Responds p \<and> \<not> confirmed p \<and>
       pool_error p = Some e \<and> e \<noteq> [] \<longrightarrow>
       fst (wait_for_confirmation c tid timeout) = Inl (PoolError e) \<and>
       polls (snd (wait_for_confirmation c tid timeout)) = polls c + k + 1) \<and>
   ((\<forall>j<nat timeout. still_pending (responses c tid (polls c + j))) \<longrightarrow>
       fst (wait_for_confirmation c tid timeout) = Inl (Timeout timeout) \<and>
       polls (snd (wait_for_confirmation c tid timeout)) = polls c + nat timeout) \<and>
   ((\<forall>i. responses c tid i \<noteq> Raises) \<longrightarrow>
       (\<forall>x. fst (wait_for_confirmation c tid timeout) = Inr x \<longrightarrow>
            (\<exists>p. x = Some p \<and> confirmed p)))"
proof (intro conjI allI impI)
  show "polls (snd (wait_for_confirmation c tid timeout)) \<le> polls c + nat timeout"
    using wait_loop_polls_le [of c tid timeout "last_round c + 1" "last_round c + 1"]
    by (simp add: wait_for_confirmation_def Let_def)
next
  fix k p
  assume h: "int k < timeout \<and> (\<forall>j<k. still_pending (responses c tid (polls c + j))) \<and>
       responses c tid (polls c + k) = Responds p \<and> confirmed p"
  then have "fst (wait_loop c tid timeout (last_round c + 1) (last_round c + 1)) = Inr (Some p) \<and>
      polls (snd (wait_loop c tid timeout (last_round c + 1) (last_round c + 1))) = polls c + k + 1"
    by (intro wait_loop_decides(1) [of k c tid _ _ _ p]) auto
  then show "fst (wait_for_confirmation c tid timeout) = Inr (Some p)"
    and "polls (snd (wait_for_confirmation c tid timeout)) = polls c + k + 1"
    by (simp_all add: wait_for_confirmation_def Let_def)
next
  fix k p e
  assume h: "int k < timeout \<and> (\<forall>j<k. still_pending (responses c tid (polls c + j))) \<and>
       responses c tid (polls c + k) = Responds p \<and> \<not> confirmed p \<and>
       pool_error p = Some e \<and> e \<noteq> []"
  then have "fst (wait_loop c tid timeout (last_round c + 1) (last_round c + 1)) = Inl (PoolError e) \<and>
      polls (snd (wait_loop c tid timeout (last_round c + 1) (last_round c + 1))) = polls c + k + 1"
    by (intro wait_loop_decides(2) [of k c tid _ _ _ p e]) auto
  then show "fst (wait_for_confirmation c tid timeout) = Inl (PoolError e)"
    and "polls (snd (wait_for_confirmation c tid timeout)) = polls c + k + 1"
    by (simp_all add: wait_for_confirmation_def Let_def)
next
  assume h: "\<forall>j<nat timeout. still_pending (responses c tid (polls c + j))"
  have t: "fst (wait_loop c tid timeout (last_round c + 1) (last_round c + 1)) = Inl (Timeout timeout) \<and>
      polls (snd (wait_loop c tid timeout (last_round c + 1) (last_round c + 1))) = polls c + nat timeout"
  proof (cases "0 \<le> timeout")
    case True
    then show ?thesis using h by (intro wait_loop_timeout) auto
  next
    case False
    then show ?thesis by (subst (1 2) wait_loop.simps) simp
  qed
  then show "fst (wait_for_confirmation c tid timeout) = Inl (Timeout timeout)"
    and "polls (snd (wait_for_confirmation c tid timeout)) = polls c + nat timeout"
    by (simp_all add: wait_for_confirmation_def Let_def)
next
  fix x
  assume r: "\<forall>i. responses c tid i \<noteq> Raises"
    and x: "fst (wait_for_confirmation c tid timeout) = Inr x"
  have "fst (wait_loop c tid timeout (last_round c + 1) (last_round c + 1)) = Inr x"
    using x by (simp add: wait_for_confirmation_def Let_def)
  then show "\<exists>p. x = Some p \<and> confirmed p"
    using wait_loop_returns_confirmed [OF refl r] by blast
qed

text \<open>
  With a budget of five rounds: two pending polls and then a confirmed one; two pending
  polls and then a pool error; pending polls only.
\<close>

theorem wait_for_confirmation_outcomes_witness:
  "fst (wait_for_confirmation
      (node (\<lambda>n. if n < 2 then Responds answer_pending else Responds answer_confirmed)) ''TX'' 5)
     = Inr (Some answer_confirmed) \<and>
   polls (snd (wait_for_confirmation
      (node (\<lambda>n. if n < 2 then Responds answer_pending else Responds answer_confirmed)) ''TX'' 5))
     = 3 \<and>
   fst (wait_for_confirmation
      (node (\<lambda>n. if n < 2 then Responds answer_pending else Responds answer_pool_error)) ''TX'' 5)
     = Inl (PoolError ''overspend'') \<and>
   polls (snd (wait_for_confirmation
      (node (\<lambda>n. if n < 2 then Responds answer_pending else Responds answer_pool_error)) ''TX'' 5))
     = 3 \<and>
   fst (wait_for_confirmation (node (\<lambda>n. Responds answer_pending)) ''TX'' 5) = Inl (Timeout 5) \<and>
   polls (snd (wait_for_confirmation (node (\<lambda>n. Responds answer_pending)) ''TX'' 5)) = 5"
proof -
  have a: "fst (wait_for_confirmation
      (node (\<lambda>n. if n < 2 then Responds answer_pending else Responds answer_confirmed)) ''TX'' 5)
     = Inr (Some answer_confirmed) \<and>
   polls (snd (wait_for_confirmation
      (node (\<lambda>n. if n < 2 then Responds answer_pending else Responds answer_confirmed)) ''TX'' 5))
     = 3"
    using wait_for_confirmation_outcomes [of "node (\<lambda>n. if n < 2 then Responds answer_pending else Responds answer_confirmed)"
        "''TX''" 5, THEN conjunct2, THEN conjunct1, rule_format, of 2 answer_confirmed]
    by (simp add: node_def still_pending_def confirmed_def answer_pending_def answer_confirmed_def)
  have b: "fst (wait_for_confirmation
      (node (\<lambda>n. if n < 2 then Responds answer_pending else Responds answer_pool_error)) ''TX'' 5)
     = Inl (PoolError ''overspend'') \<and>
   polls (snd (wait_for_confirmation
      (node (\<lambda>n. if n < 2 then Responds answer_pending else Responds answer_pool_error)) ''TX'' 5))
     = 3"
    using wait_for_confirmation_outcomes [of "node (\<lambda>n. if n < 2 then Responds answer_pending else Responds answer_pool_error)"
        "''TX''" 5, THEN conjunct2, THEN conjunct2, THEN conjunct1, rule_format,
        of 2 answer_pool_error "''overspend''"]
    by (simp add: node_def still_pending_def confirmed_def answer_pending_def answer_pool_error_def)
  have c: "fst (wait_for_confirmation (node (\<lambda>n. Responds answer_pending)) ''TX'' 5) = Inl (Timeout 5) \<and>
   polls (snd (wait_for_confirmation (node (\<lambda>n. Responds answer_pending)) ''TX'' 5)) = 5"
    using wait_for_confirmation_outcomes [of "node (\<lambda>n. Responds answer_pending)" "''TX''" 5,
        THEN conjunct2, THEN conjunct2, THEN conjunct2, THEN conjunct1]
    by (simp add: node_def still_pending_def confirmed_def answer_pending_def)
  show ?thesis using a b c by simp
qed

lemma wait_loop_raises:
  assumes "\<forall>j<k. still_pending (responses c tid (polls c + j))"
    and "current_round + int k < start_round + timeout"
    and "responses c tid (polls c + k) = Raises"
  shows "fst (wait_loop c tid timeout start_round current_round) = Inr None \<and>
         polls (snd (wait_loop c tid timeout start_round current_round)) = polls c + k + 1"
proof -
  have "current_round + int k \<le> start_round + timeout"
    using assms(2) by simp
  from wait_loop_skip [OF assms(1) this]
  obtain c' where c': "wait_loop c tid timeout start_round current_round =
       wait_loop c' tid timeout start_round (current_round + int k)"
      "responses c' = responses c" "polls c' = polls c + k"
    by blast
  have r: "responses c' tid (polls c') = Raises"
    using assms(3) c'(2,3) by simp
  show ?thesis
    unfolding c'(1) using assms(2) r c'(3)
    by (subst (1 2) wait_loop.simps) (simp add: pending_transaction_info_def)
qed

lemma raises_after_pending:
  assumes "\<forall>j<k. still_pending (responses c tid (polls c + j))"
    and "int k < timeout"
    and "responses c tid (polls c + k) = Raises"
  shows "fst (wait_for_confirmation c tid timeout) = Inr None \<and>
         polls (snd (wait_for_confirmation c tid timeout)) = polls c + k + 1"
  using wait_loop_raises [OF assms(1) _ assms(3), of "last_round c + 1" "last_round c + 1" timeout]
    assms(2)
  by (simp add: wait_for_confirmation_def Let_def)

text \<open>
  Claim C5 says that once \<open>maxRounds\<close> polls have gone by without a confirmation the
  loop raises the timeout failure, never a silent success. With a budget of five rounds,
  let four polls find the transaction pending and let the fifth poll raise. Five polls
  have been made and none reported a confirmation; the loop returns \<open>None\<close> and raises
  nothing. The cause is the one of claim C2: the \<open>except\<close> clause that returns.
\<close>

theorem wait_for_confirmation_silent_after_budget:
  "fst (wait_for_confirmation
      (node (\<lambda>n. if n < 4 then Responds answer_pending else Raises)) ''TX'' 5) = Inr None \<and>
   polls (snd (wait_for_confirmation
      (node (\<lambda>n. if n < 4 then Responds answer_pending else Raises)) ''TX'' 5)) = 5 \<and>
   \<not> confirmed answer_pending"
proof -
  have "fst (wait_for_confirmation
      (node (\<lambda>n. if n < 4 then Responds answer_pending else Raises)) ''TX'' 5) = Inr None \<and>
   polls (snd (wait_for_confirmation
      (node (\<lambda>n. if n < 4 then Responds answer_pending else Raises)) ''TX'' 5)) =
     polls (node (\<lambda>n. if n < 4 then Responds answer_pending else Raises)) + 4 + 1"
    by (rule raises_after_pending)
       (simp_all add: node_def still_pending_def confirmed_def answer_pending_def)
  then show ?thesis
    by (simp add: node_def confirmed_def answer_pending_def)
qed

lemma first_poll_raises:
  "0 < timeout \<Longrightarrow> responses c tid (polls c) = Raises \<Longrightarrow>
   fst (wait_for_confirmation c tid timeout) = Inr None"
  by (simp add: wait_for_confirmation_def Let_def wait_loop.simps [of c] pending_transaction_info_def)

text \<open>
  Claim C2 says that no failure is swallowed, and that \<open>wait_for_confirmation\<close> in
  particular never turns one into a result that is not a failure. The loop catches every
  exception of \<open>pending_transaction_info\<close> and returns \<open>None\<close> on it: when the first
  poll raises, the caller gets \<open>None\<close> and goes on.
\<close>

theorem wait_for_confirmation_swallows_client_exception:
  "fst (wait_for_confirmation (node (\<lambda>n. Raises)) ''TX'' 5) = Inr None"
  by (rule first_poll_raises) (simp_all add: node_def)

section \<open>The state formatters\<close>

lemma decode_keys:
  "rfc4648_b64decode ''Q291bnQ='' = Inr ''Count''"
  "rfc4648_b64decode ''dm90ZWQ='' = Inr ''voted''"
  "rfc4648_b64decode ''Q3JlYXRvcg=='' = Inr ''Creator''"
  "rfc4648_b64decode ''Y2FuZGlkYXRlYQ=='' = Inr ''candidatea''"
  by code_simp+

lemma decode_ascii:
  "ascii_decode ''Count'' = Inr ''Count''"
  "ascii_decode ''voted'' = Inr ''voted''"
  "ascii_decode ''Creator'' = Inr ''Creator''"
  "ascii_decode ''candidatea'' = Inr ''candidatea''"
  by code_simp+

lemma format_item_key:
  "format_item cd item = Inr (k, v) \<Longrightarrow> formatted_key_of cd item = Inr k"
  by (auto simp: format_item_def Let_def split: sum.splits if_splits option.splits)

lemma format_item_bytes:
  assumes "format_item cd item = Inr (k, v)" and "value_type (item_value item) = 1"
  shows "(k \<noteq> ''voted'' \<longrightarrow>
            (\<exists>b. value_bytes (item_value item) = Some b \<and> v = PyStr b)) \<and>
         (k = ''voted'' \<longrightarrow>
            (\<exists>b raw s. value_bytes (item_value item) = Some b \<and> b64decode cd b = Inr raw \<and>
               decode_utf8 cd raw = Inr s \<and> v = PyStr s))"
  using assms
  by (auto simp: format_item_def Let_def split: sum.splits if_splits option.splits)

lemma format_state_from_other_key:
  "format_state_from cd f state = Inr formatted \<Longrightarrow>
   \<forall>j<length state. formatted_key_of cd (state ! j) \<noteq> Inr k \<Longrightarrow>
   formatted k = f k"
proof (induction state arbitrary: f)
  case Nil
  then show ?case by simp
next
  case (Cons item rest)
  from Cons.prems(1) obtain k0 v0 where it: "format_item cd item = Inr (k0, v0)"
    and r: "format_state_from cd (f(k0 \<mapsto> v0)) rest = Inr formatted"
    by (auto split: sum.splits)
  have "formatted_key_of cd item \<noteq> Inr k"
    using Cons.prems(2) [rule_format, of 0] by simp
  then have ne: "k0 \<noteq> k" using format_item_key [OF it] by auto
  have "\<forall>j<length rest. formatted_key_of cd (rest ! j) \<noteq> Inr k"
  proof (intro allI impI)
    fix j assume "j < length rest"
    then show "formatted_key_of cd (rest ! j) \<noteq> Inr k"
      using Cons.prems(2) [rule_format, of "Suc j"] by simp
  qed
  from Cons.IH [OF r this] show ?case using ne by simp
qed

lemma format_state_from_entry:
  "format_state_from cd f state = Inr formatted \<Longrightarrow> i < length state \<Longrightarrow>
   \<forall>j. i < j \<and> j < length state \<longrightarrow> formatted_key_of cd (state ! j) \<noteq> Inr k \<Longrightarrow>
   formatted_key_of cd (state ! i) = Inr k \<Longrightarrow>
   \<exists>v. format_item cd (state ! i) = Inr (k, v) \<and> formatted k = Some v"
proof (induction state arbitrary: f i)
  case Nil
  then show ?case by simp
next
  case (Cons item rest)
  from Cons.prems(1) obtain k0 v0 where it: "format_item cd item = Inr (k0, v0)"
    and r: "format_state_from cd (f(k0 \<mapsto> v0)) rest = Inr formatted"
    by (auto split: sum.splits)
  show ?case
  proof (cases i)
    case 0
    then have k0: "k0 = k"
      using format_item_key [OF it] Cons.prems(4) by simp
    have "\<forall>j<length rest. formatted_key_of cd (rest ! j) \<noteq> Inr k"
    proof (intro allI impI)
      fix j assume "j < length rest"
      then show "formatted_key_of cd (rest ! j) \<noteq> Inr k"
        using Cons.prems(3) [rule_format, of "Suc j"] 0 by simp
    qed
    from format_state_from_other_key [OF r this]
    have "formatted k = Some v0" using k0 by simp
    then show ?thesis using 0 it k0 by simp
  next
    case (Suc i')
    have a: "i' < length rest" using Cons.prems(2) Suc by simp
    have b: "\<forall>j. i' < j \<and> j < length rest \<longrightarrow> formatted_key_of cd (rest ! j) \<noteq> Inr k"
    proof (intro allI impI)
      fix j assume "i' < j \<and> j < length rest"
      then show "formatted_key_of cd (rest ! j) \<noteq> Inr k"
        using Cons.prems(3) [rule_format, of "Suc j"] Suc by simp
    qed
    have c: "formatted_key_of cd (rest ! i') = Inr k"
      using Cons.prems(4) Suc by simp
    from Cons.IH [OF r a b c] show ?thesis using Suc by simp
  qed
qed

lemma format_two:
  "format_state library_codec [voted_item, creator_item, count_item] =
     Inr [''voted'' \<mapsto> PyStr ''candidatea'', ''Creator'' \<mapsto> PyStr ''QWxpY2U='',
          ''Count'' \<mapsto> PyInt 3]"
  by (simp add: format_state_def format_item_def formatted_key_of_def library_codec_def
      voted_item_def creator_item_def count_item_def decode_keys decode_ascii)

lemma keys_two:
  "formatted_key_of library_codec voted_item = Inr ''voted''"
  "formatted_key_of library_codec creator_item = Inr ''Creator''"
  "formatted_key_of library_codec count_item = Inr ''Count''"
  by (simp_all add: formatted_key_of_def library_codec_def
      voted_item_def creator_item_def count_item_def decode_keys decode_ascii)

text \<open>
  Claim C10. Let \<open>format_state\<close> return a mapping, and take an entry of the state with
  discriminant \<open>1\<close> whose key decodes to \<open>k\<close>, no later entry having the same decoded
  key (a later one would overwrite it). If \<open>k\<close> is not \<open>voted\<close>, the mapping has under
  \<open>k\<close> the \<open>bytes\<close> field of the entry as it came, still base64. If \<open>k\<close> is \<open>voted\<close>,
  it has that field decoded from base64 and then from UTF-8.
\<close>

theorem format_state_byte_string_entry:
  assumes "format_state cd state = Inr formatted"
    and "i < length state"
    and "value_type (item_value (state ! i)) = 1"
    and "formatted_key_of cd (state ! i) = Inr k"
    and "\<forall>j. i < j \<and> j < length state \<longrightarrow> formatted_key_of cd (state ! j) \<noteq> Inr k"
  shows "(k \<noteq> ''voted'' \<longrightarrow>
            (\<exists>b. value_bytes (item_value (state ! i)) = Some b \<and>
                 formatted k = Some (PyStr b))) \<and>
         (k = ''voted'' \<longrightarrow>
            (\<exists>b raw s. value_bytes (item_value (state ! i)) = Some b \<and>
               b64decode cd b = Inr raw \<and> decode_utf8 cd raw = Inr s \<and>
               formatted k = Some (PyStr s)))"
proof -
  have "format_state_from cd Map.empty state = Inr formatted"
    using assms(1) by (simp add: format_state_def)
  from format_state_from_entry [OF this assms(2) assms(5) assms(4)]
  obtain v where v: "format_item cd (state ! i) = Inr (k, v)" "formatted k = Some v"
    by blast
  from format_item_bytes [OF v(1) assms(3)] show ?thesis
    using v(2) by auto
qed

text \<open>
  A state with the entries \<open>voted\<close>, \<open>Creator\<close> and \<open>Count\<close>: the value under
  \<open>voted\<close> is decoded, the value under \<open>Creator\<close> is not.
\<close>

theorem format_state_byte_string_entry_witness:
  "format_state library_codec [voted_item, creator_item, count_item] =
     Inr [''voted'' \<mapsto> PyStr ''candidatea'', ''Creator'' \<mapsto> PyStr ''QWxpY2U='',
          ''Count'' \<mapsto> PyInt 3] \<and>
   value_type (item_value voted_item) = 1 \<and> value_type (item_value creator_item) = 1 \<and>
   formatted_key_of library_codec voted_item = Inr ''voted'' \<and>
   formatted_key_of library_codec creator_item = Inr ''Creator'' \<and>
   value_bytes (item_value creator_item) = Some ''QWxpY2U='' \<and>
   value_bytes (item_value voted_item) = Some ''Y2FuZGlkYXRlYQ=='' \<and>
   (\<exists>b. value_bytes (item_value creator_item) = Some b \<and>
        [''voted'' \<mapsto> PyStr ''candidatea'', ''Creator'' \<mapsto> PyStr ''QWxpY2U='',
          ''Count'' \<mapsto> PyInt 3] ''Creator'' = Some (PyStr b)) \<and>
   (\<exists>b raw s. value_bytes (item_value voted_item) = Some b \<and>
        b64decode library_codec b = Inr raw \<and> decode_utf8 library_codec raw = Inr s \<and>
        [''voted'' \<mapsto> PyStr ''candidatea'', ''Creator'' \<mapsto> PyStr ''QWxpY2U='',
          ''Count'' \<mapsto> PyInt 3] ''voted'' = Some (PyStr s))"
proof -
  have later0: "\<forall>j. 0 < j \<and> j < length [voted_item, creator_item, count_item] \<longrightarrow>
      formatted_key_of library_codec ([voted_item, creator_item, count_item] ! j) \<noteq> Inr ''voted''"
    by (auto simp: less_Suc_eq keys_two)
  have later1: "\<forall>j. 1 < j \<and> j < length [voted_item, creator_item, count_item] \<longrightarrow>
      formatted_key_of library_codec ([voted_item, creator_item, count_item] ! j) \<noteq> Inr ''Creator''"
    by (auto simp: less_Suc_eq keys_two)
  have v: "value_type (item_value voted_item) = 1" "value_type (item_value creator_item) = 1"
    "value_bytes (item_value creator_item) = Some ''QWxpY2U=''"
    "value_bytes (item_value voted_item) = Some ''Y2FuZGlkYXRlYQ==''"
    by (simp_all add: voted_item_def creator_item_def)
  show ?thesis
    using format_state_byte_string_entry [OF format_two, of 0 "''voted''"] format_state_byte_string_entry [OF format_two, of 1 "''Creator''"]
      later0 later1 v keys_two format_two
    by simp
qed

lemma format_item_other_type:
  "value_type (item_value item) \<noteq> 1 \<Longrightarrow> formatted_key_of cd item = Inr k \<Longrightarrow>
   value_uint (item_value item) = Some u \<Longrightarrow> format_item cd item = Inr (k, PyInt u)"
  by (simp add: format_item_def Let_def)

lemma get_app_global_state_types:
  assumes "get_app_global_state_from cd f pairs = Inr state" and "pair \<in> set pairs"
  shows "value_type (item_value pair) = 1 \<or> value_type (item_value pair) = 2"
  using assms
proof (induction pairs arbitrary: f)
  case Nil
  then show ?case by simp
next
  case (Cons p ps)
  from Cons.prems(1) obtain k v where p: "global_state_pair cd p = Inr (k, v)"
    and r: "get_app_global_state_from cd (f(k \<mapsto> v)) ps = Inr state"
    by (auto split: sum.splits)
  have "value_type (item_value p) = 1 \<or> value_type (item_value p) = 2"
    using p by (auto simp: global_state_pair_def Let_def split: sum.splits if_splits)
  then show ?case using Cons.IH [OF r] Cons.prems(2) by auto
qed

text \<open>
  Claim C3 asks that an entry whose discriminant is neither \<open>1\<close> nor \<open>2\<close> makes the
  formatter fail. \<open>get_app_global_state\<close> does fail on it, with the unexpected-type
  failure. \<open>format_state\<close> does not: every discriminant other than \<open>1\<close> goes to its
  \<open>else\<close> branch, and the entry with discriminant \<open>3\<close> comes out as an integer, read
  from the \<open>uint\<close> field.
\<close>

theorem format_state_accepts_unknown_type:
  "value_type (item_value odd_item) \<noteq> 1 \<and> value_type (item_value odd_item) \<noteq> 2 \<and>
   format_state library_codec [odd_item] = Inr [''Count'' \<mapsto> PyInt 0] \<and>
   get_app_global_state library_codec [odd_item] = Inl (UnexpectedStateType 3)"
  by (simp add: format_state_def format_item_def formatted_key_of_def library_codec_def
      get_app_global_state_def global_state_pair_def odd_item_def decode_keys decode_ascii)

end
